theory Spec2Isabelle
  imports Main "HOL-Library.Multiset"
begin

text \<open>
  A model of the bulk import of the Webflow CMS toolkit: the client methods \<open>getItems\<close>,
  \<open>getAllItems\<close>, \<open>createItems\<close> and \<open>upsertItems\<close> of \<open>src/utils/webflow.js\<close>, and
  \<open>transformData\<close> and \<open>runImport\<close> of the \<open>DataImporter\<close> component. The remote
  service is a parameter of the model; what a run does to it is recorded as a list of
  events.
\<close>

section \<open>JavaScript values and plain objects\<close>

text \<open>
  The values that occur in parsed import rows and in CMS items: \<open>undefined\<close>, \<open>null\<close>,
  booleans, numbers and strings. A number is represented by the text JavaScript prints
  for it (\<open>String(x)\<close>), which identifies the number and is also the property key it
  turns into. \<open>JNative k\<close> is the built-in function or object that a read of property
  \<open>k\<close> yields on a plain object through \<open>Object.prototype\<close>. Nested objects and arrays
  as field values are not modelled.
\<close>

datatype jsval = JUndefined | JNull | JBool bool | JNum string | JStr string | JNative string

text \<open>A plain object is the map of its own properties.\<close>

type_synonym jsobj = "string \<rightharpoonup> jsval"

text \<open>ToBoolean, as used by \<open>if (v)\<close>, \<open>v && w\<close> and \<open>filter(Boolean)\<close>.\<close>

fun truthy :: "jsval \<Rightarrow> bool" where
  "truthy JUndefined = False"
| "truthy JNull = False"
| "truthy (JBool b) = b"
| "truthy (JNum s) = (s \<noteq> ''0'' \<and> s \<noteq> ''NaN'')"
| "truthy (JStr s) = (s \<noteq> [])"
| "truthy (JNative k) = True"

text \<open>
  The names of the members of \<open>Object.prototype\<close>, which every object created by
  \<open>{}\<close>, by \<open>JSON.parse\<close> or by the CSV parser inherits.
\<close>

definition proto_names :: "string list" where
  "proto_names =
     [''constructor'', ''__defineGetter__'', ''__defineSetter__'', ''hasOwnProperty'',
      ''__lookupGetter__'', ''__lookupSetter__'', ''isPrototypeOf'',
      ''propertyIsEnumerable'', ''toString'', ''valueOf'', ''__proto__'',
      ''toLocaleString'']"

text \<open>The text of a built-in member as V8 prints it (\<open>String(({}).constructor)\<close>).\<close>

definition native_text :: "string \<Rightarrow> string" where
  "native_text k =
     (if k = ''__proto__'' then ''[object Object]''
      else if k = ''constructor'' then ''function Object() { [native code] }''
      else ''function '' @ k @ ''() { [native code] }'')"

text \<open>ToPropertyKey: the string under which \<open>obj[v]\<close> reads or writes.\<close>

fun to_key :: "jsval \<Rightarrow> string" where
  "to_key JUndefined = ''undefined''"
| "to_key JNull = ''null''"
| "to_key (JBool b) = (if b then ''true'' else ''false'')"
| "to_key (JNum s) = s"
| "to_key (JStr s) = s"
| "to_key (JNative k) = native_text k"

text \<open>
  \<open>obj[k]\<close> and \<open>obj.k\<close>: the own property if there is one, else the member inherited
  from \<open>Object.prototype\<close>, else \<open>undefined\<close>.
\<close>

definition get_prop :: "jsobj \<Rightarrow> string \<Rightarrow> jsval" where
  "get_prop obj k =
     (case obj k of
        Some v \<Rightarrow> v
      | None \<Rightarrow> if k \<in> set proto_names then JNative k else JUndefined)"

text \<open>
  \<open>obj[k] = s\<close> for a string \<open>s\<close>, on an object created by \<open>{}\<close> that only such
  assignments modify (its prototype stays \<open>Object.prototype\<close>). The key \<open>__proto__\<close>
  reaches the accessor inherited from \<open>Object.prototype\<close>, whose setter ignores a string
  and creates no own property.
\<close>

definition set_prop :: "jsobj \<Rightarrow> string \<Rightarrow> string \<Rightarrow> jsobj" where
  "set_prop obj k s = (if k = ''__proto__'' \<and> obj k = None then obj else obj(k \<mapsto> JStr s))"

subsection \<open>Assignment of any value\<close>

text \<open>
  An object that starts as \<open>{}\<close> and is assigned arbitrary values under arbitrary keys
  can lose or change its prototype, so it is modelled with it: \<open>Object.prototype\<close>,
  \<open>null\<close>, or the built-in function \<open>JNative n\<close>.
\<close>

datatype prototype = ObjectPrototype | NullPrototype | NativePrototype string

record built_object =
  own :: jsobj
  proto :: prototype

text \<open>
  What the assignment \<open>obj[k] = v\<close> does when \<open>obj\<close> has no own property \<open>k\<close>, by what
  the prototype chain holds under \<open>k\<close>: nothing or a writable member (an own property is
  created), a read-only member or a throwing accessor (the assignment throws a
  \<open>TypeError\<close>, the code being a module and so in strict mode), or the \<open>__proto__\<close>
  accessor of \<open>Object.prototype\<close>. A built-in function has the read-only own properties
  \<open>length\<close> and \<open>name\<close> (and \<open>prototype\<close>, for the constructor \<open>Object\<close>) and inherits
  the throwing accessors \<open>arguments\<close> and \<open>caller\<close> from \<open>Function.prototype\<close>.
\<close>

datatype write_effect = CreatesOwn | Throws | SetsPrototype

fun inherited_write :: "prototype \<Rightarrow> string \<Rightarrow> write_effect" where
  "inherited_write NullPrototype k = CreatesOwn"
| "inherited_write ObjectPrototype k = (if k = ''__proto__'' then SetsPrototype else CreatesOwn)"
| "inherited_write (NativePrototype n) k =
     (if k = ''__proto__'' then SetsPrototype
      else if k \<in> {''length'', ''name'', ''arguments'', ''caller''}
              \<or> (n = ''constructor'' \<and> k = ''prototype'') then Throws
      else CreatesOwn)"

text \<open>
  The \<open>__proto__\<close> setter: \<open>null\<close> removes the prototype, an object or function becomes
  the prototype (\<open>JNative ''__proto__''\<close> is \<open>Object.prototype\<close> itself), and any other
  value is ignored.
\<close>

fun set_prototype :: "built_object \<Rightarrow> jsval \<Rightarrow> built_object" where
  "set_prototype obj JNull = obj\<lparr>proto := NullPrototype\<rparr>"
| "set_prototype obj (JNative n) =
     obj\<lparr>proto := (if n = ''__proto__'' then ObjectPrototype else NativePrototype n)\<rparr>"
| "set_prototype obj v = obj"

text \<open>\<open>obj[k] = v\<close>; \<open>Inl k\<close> is the \<open>TypeError\<close> thrown for the key \<open>k\<close>.\<close>

definition assign :: "built_object \<Rightarrow> string \<Rightarrow> jsval \<Rightarrow> string + built_object" where
  "assign obj k v =
     (if own obj k \<noteq> None then Inr (obj\<lparr>own := (own obj)(k \<mapsto> v)\<rparr>)
      else case inherited_write (proto obj) k of
             CreatesOwn \<Rightarrow> Inr (obj\<lparr>own := (own obj)(k \<mapsto> v)\<rparr>)
           | Throws \<Rightarrow> Inl k
           | SetsPrototype \<Rightarrow> Inr (set_prototype obj v))"

section \<open>The remote item store and the effects of a run\<close>

text \<open>
  A CMS item as the list endpoint returns it: its identifier (an opaque string) and its
  \<open>fieldData\<close> object, which may be missing.
\<close>

record item =
  item_id :: string
  fieldData :: "jsobj option"

text \<open>
  The calls of the client that reach the remote service, with their arguments:
  \<open>getItems\<close> with the \<open>limit\<close> and \<open>offset\<close> query parameters it sets,
  \<open>createItem(collectionId, itemData, isDraft)\<close> and
  \<open>updateItem(collectionId, itemId, itemData, isLive)\<close>.
\<close>

datatype request =
    GetItems string "nat option" "nat option"
  | CreateItem string jsobj bool
  | UpdateItem string jsval jsobj bool

text \<open>The arguments handed to the \<open>onProgress\<close> callback.\<close>

datatype progress = Fetching | Found nat | Processed nat nat

text \<open>What a run does, in order: remote requests, timer waits (milliseconds), progress events.\<close>

datatype event = Request request | Sleep nat | Progress progress

text \<open>
  The remote service. \<open>list_response\<close> answers a list request with the items of the
  page (\<open>data.items || []\<close>) or fails with a message; \<open>write_response i\<close> answers the
  create or update request issued for row \<open>i\<close> with the response data or fails with a
  message (\<open>request\<close> throws an \<open>Error\<close>).
\<close>

record 'r remote =
  list_response :: "request \<Rightarrow> string + item list"
  write_response :: "nat \<Rightarrow> request \<Rightarrow> string + 'r"

section \<open>Paginated fetch\<close>

definition getItems_request :: "string \<Rightarrow> nat \<Rightarrow> nat \<Rightarrow> request" where
  "getItems_request collectionId limit offset =
     GetItems collectionId
       (if limit \<noteq> 0 then Some limit else None)
       (if offset \<noteq> 0 then Some offset else None)"

definition getItems :: "'r remote \<Rightarrow> string \<Rightarrow> nat \<Rightarrow> nat \<Rightarrow> string + item list" where
  "getItems env collectionId limit offset =
     list_response env (getItems_request collectionId limit offset)"

text \<open>
  The \<open>while (true)\<close> loop of \<open>getAllItems\<close>, with the local variables \<open>offset\<close> and
  \<open>allItems\<close> and the events so far as arguments. \<open>None\<close> is a loop that never ends;
  \<open>Some (Inl msg, _)\<close> is a rejected promise.
\<close>

partial_function (option) getAllItems_loop ::
  "'r remote \<Rightarrow> string \<Rightarrow> nat \<Rightarrow> item list \<Rightarrow> event list
     \<Rightarrow> ((string + item list) \<times> event list) option" where
  "getAllItems_loop env collectionId offset allItems tr =
     (let limit = 100;
          tr1 = tr @ [Request (getItems_request collectionId limit offset)] in
      case getItems env collectionId limit offset of
        Inl msg \<Rightarrow> Some (Inl msg, tr1)
      | Inr items \<Rightarrow>
          if length items < limit then Some (Inr (allItems @ items), tr1)
          else getAllItems_loop env collectionId (offset + limit) (allItems @ items)
                 (tr1 @ [Sleep 150]))"

definition getAllItems ::
  "'r remote \<Rightarrow> string \<Rightarrow> ((string + item list) \<times> event list) option" where
  "getAllItems env collectionId = getAllItems_loop env collectionId 0 [] []"

section \<open>Bulk operations\<close>

datatype action = Created | Updated

text \<open>
  The entries pushed on \<open>results\<close> (\<open>{success: true, index, data, action}\<close>) and on
  \<open>errors\<close> (\<open>{success: false, index, error, item}\<close>).
\<close>

datatype 'r success_entry = Success (index: nat) (data: 'r) (action: action)

datatype error_entry = Failure (index: nat) (error: string) (item: jsobj)

text \<open>The local state of a row loop: the two lists and the events so far.\<close>

record 'r loop_state =
  results :: "'r success_entry list"
  errors :: "error_entry list"
  trace :: "event list"

subsection \<open>Create-only import\<close>

text \<open>The body of the \<open>for\<close> loop of \<open>createItems\<close> at index \<open>i\<close>.\<close>

definition createItems_step ::
  "'r remote \<Rightarrow> string \<Rightarrow> jsobj list \<Rightarrow> bool \<Rightarrow> nat \<Rightarrow> 'r loop_state \<Rightarrow> 'r loop_state" where
  "createItems_step env collectionId items isLive i st =
     (let req = CreateItem collectionId (items ! i) (\<not> isLive) in
      case write_response env i req of
        Inr result \<Rightarrow>
          st\<lparr>results := results st @ [Success i result Created],
             trace := trace st @ [Request req]
                      @ (if i < length items - 1 then [Sleep 150] else [])\<rparr>
      | Inl msg \<Rightarrow>
          st\<lparr>errors := errors st @ [Failure i msg (items ! i)],
             trace := trace st @ [Request req]\<rparr>)"

function createItems_loop ::
  "'r remote \<Rightarrow> string \<Rightarrow> jsobj list \<Rightarrow> bool \<Rightarrow> nat \<Rightarrow> 'r loop_state \<Rightarrow> 'r loop_state" where
  "createItems_loop env collectionId items isLive i st =
     (if i < length items
      then createItems_loop env collectionId items isLive (i + 1)
             (createItems_step env collectionId items isLive i st)
      else st)"
  by pat_completeness auto
termination
  by (relation "measure (\<lambda>(env, collectionId, items, isLive, i, st). length items - i)") auto

declare createItems_loop.simps [simp del]

record 'r create_result =
  results :: "'r success_entry list"
  errors :: "error_entry list"
  total :: nat

definition createItems ::
  "'r remote \<Rightarrow> string \<Rightarrow> jsobj list \<Rightarrow> bool \<Rightarrow> 'r create_result \<times> event list" where
  "createItems env collectionId items isLive =
     (let st = createItems_loop env collectionId items isLive 0
                 \<lparr>loop_state.results = [], loop_state.errors = [], trace = []\<rparr> in
      (\<lparr>create_result.results = loop_state.results st,
        create_result.errors = loop_state.errors st,
        total = length items\<rparr>, trace st))"

subsection \<open>Upsert\<close>

text \<open>
  The lookups built from the existing items: the object \<open>slugToId\<close> (created by \<open>{}\<close>)
  and the set \<open>idSet\<close>. First the read \<open>item.fieldData?.slug\<close>.
\<close>

definition item_slug :: "item \<Rightarrow> jsval" where
  "item_slug it = (case fieldData it of None \<Rightarrow> JUndefined | Some fd \<Rightarrow> get_prop fd ''slug'')"

text \<open>The body of the loop over the existing items.\<close>

definition add_existing :: "item \<Rightarrow> jsobj \<times> jsval set \<Rightarrow> jsobj \<times> jsval set" where
  "add_existing it = (\<lambda>(slugToId, idSet).
     ((if truthy (item_slug it)
       then set_prop slugToId (to_key (item_slug it)) (item_id it)
       else slugToId),
      insert (JStr (item_id it)) idSet))"

definition build_lookups :: "item list \<Rightarrow> jsobj \<times> jsval set" where
  "build_lookups existingItems = fold add_existing existingItems (Map.empty, {})"

text \<open>\<open>const { id: itemId, ...fieldData } = items[i]\<close>: the rest object.\<close>

definition rest_without_id :: "jsobj \<Rightarrow> jsobj" where
  "rest_without_id row = row(''id'' := None)"

text \<open>The value of \<open>existingId\<close> after the two checks (\<open>null\<close> when neither applies).\<close>

definition existingId_of :: "jsobj \<Rightarrow> jsval set \<Rightarrow> jsobj \<Rightarrow> jsval" where
  "existingId_of slugToId idSet row =
     (let itemId = get_prop row ''id'';
          fieldData = rest_without_id row in
      if truthy itemId \<and> itemId \<in> idSet then itemId
      else if truthy (get_prop fieldData ''slug'')
              \<and> truthy (get_prop slugToId (to_key (get_prop fieldData ''slug'')))
      then get_prop slugToId (to_key (get_prop fieldData ''slug''))
      else JNull)"

text \<open>The remote call issued for a row, and the action tag recorded with it.\<close>

definition upsert_request ::
  "string \<Rightarrow> jsobj \<Rightarrow> jsval set \<Rightarrow> bool \<Rightarrow> jsobj \<Rightarrow> request" where
  "upsert_request collectionId slugToId idSet isLive row =
     (let existingId = existingId_of slugToId idSet row in
      if truthy existingId
      then UpdateItem collectionId existingId (rest_without_id row) isLive
      else CreateItem collectionId (rest_without_id row) (\<not> isLive))"

definition upsert_action :: "jsobj \<Rightarrow> jsval set \<Rightarrow> jsobj \<Rightarrow> action" where
  "upsert_action slugToId idSet row =
     (if truthy (existingId_of slugToId idSet row) then Updated else Created)"

text \<open>
  The body of the \<open>for\<close> loop of \<open>upsertItems\<close> at index \<open>i\<close>. \<open>onProgress\<close> tells
  whether a callback was passed; the callback receives the event and returns normally,
  as the state setter that \<open>runImport\<close> passes does. The rows are objects, so the
  destructuring does not throw, and the only failure inside the \<open>try\<close> is that of the
  remote call.
\<close>

definition upsertItems_step ::
  "'r remote \<Rightarrow> string \<Rightarrow> jsobj \<Rightarrow> jsval set \<Rightarrow> jsobj list \<Rightarrow> bool \<Rightarrow> bool \<Rightarrow> nat
     \<Rightarrow> 'r loop_state \<Rightarrow> 'r loop_state" where
  "upsertItems_step env collectionId slugToId idSet items isLive onProgress i st =
     (let req = upsert_request collectionId slugToId idSet isLive (items ! i) in
      case write_response env i req of
        Inr result \<Rightarrow>
          st\<lparr>loop_state.results := loop_state.results st
                 @ [Success i result (upsert_action slugToId idSet (items ! i))],
             trace := trace st @ [Request req]
                      @ (if onProgress then [Progress (Processed (i + 1) (length items))] else [])
                      @ (if i < length items - 1 then [Sleep 200] else [])\<rparr>
      | Inl msg \<Rightarrow>
          st\<lparr>loop_state.errors := loop_state.errors st @ [Failure i msg (items ! i)],
             trace := trace st @ [Request req]\<rparr>)"

function upsertItems_loop ::
  "'r remote \<Rightarrow> string \<Rightarrow> jsobj \<Rightarrow> jsval set \<Rightarrow> jsobj list \<Rightarrow> bool \<Rightarrow> bool \<Rightarrow> nat
     \<Rightarrow> 'r loop_state \<Rightarrow> 'r loop_state" where
  "upsertItems_loop env collectionId slugToId idSet items isLive onProgress i st =
     (if i < length items
      then upsertItems_loop env collectionId slugToId idSet items isLive onProgress (i + 1)
             (upsertItems_step env collectionId slugToId idSet items isLive onProgress i st)
      else st)"
  by pat_completeness auto
termination
  by (relation "measure (\<lambda>(env, collectionId, slugToId, idSet, items, isLive, onProgress, i, st).
         length items - i)") auto

declare upsertItems_loop.simps [simp del]

text \<open>The returned object; the diagnostic \<open>_debug\<close> field is left out.\<close>

record 'r upsert_result =
  results :: "'r success_entry list"
  errors :: "error_entry list"
  total :: nat
  updated :: nat
  created :: nat

text \<open>The part of \<open>upsertItems\<close> after the existing items have been fetched.\<close>

definition upsert_existing ::
  "'r remote \<Rightarrow> string \<Rightarrow> item list \<Rightarrow> jsobj list \<Rightarrow> bool \<Rightarrow> bool
     \<Rightarrow> 'r upsert_result \<times> event list" where
  "upsert_existing env collectionId existingItems items isLive onProgress =
     (let (slugToId, idSet) = build_lookups existingItems;
          st = upsertItems_loop env collectionId slugToId idSet items isLive onProgress 0
                 \<lparr>loop_state.results = [], loop_state.errors = [],
                  trace = (if onProgress then [Progress (Found (length existingItems))] else [])\<rparr>;
          res = loop_state.results st in
      (\<lparr>upsert_result.results = res,
        upsert_result.errors = loop_state.errors st,
        upsert_result.total = length items,
        updated = length (filter (\<lambda>r. action r = Updated) res),
        created = length (filter (\<lambda>r. action r = Created) res)\<rparr>, trace st))"

text \<open>
  \<open>upsertItems\<close>: \<open>None\<close> when the fetch never ends, \<open>Some (Inl msg, _)\<close> when the fetch
  fails (the promise is rejected), else the returned object.
\<close>

definition upsertItems ::
  "'r remote \<Rightarrow> string \<Rightarrow> jsobj list \<Rightarrow> bool \<Rightarrow> bool
     \<Rightarrow> ((string + 'r upsert_result) \<times> event list) option" where
  "upsertItems env collectionId items isLive onProgress =
     (let tr0 = (if onProgress then [Progress Fetching] else []) in
      case getAllItems env collectionId of
        None \<Rightarrow> None
      | Some (Inl msg, tr) \<Rightarrow> Some (Inl msg, tr0 @ tr)
      | Some (Inr existingItems, tr) \<Rightarrow>
          (let (res, tr') = upsert_existing env collectionId existingItems items isLive onProgress
           in Some (Inr res, tr0 @ tr @ tr')))"

section \<open>The importer\<close>

text \<open>
  The state of the \<open>DataImporter\<close> component that \<open>transformData\<close> and \<open>runImport\<close>
  read. \<open>fieldMapping\<close> is given as the list \<open>Object.entries(fieldMapping)\<close> of its
  (source column, destination slug) pairs; \<open>selectedCollection\<close> is the identifier of the
  collection chosen, \<open>parsedData\<close> the rows of the uploaded file (\<open>None\<close> is \<open>null\<close>).
\<close>

record importer =
  selectedCollection :: "string option"
  parsedData :: "jsobj list option"
  fieldMapping :: "(string \<times> string) list"
  isDryRun :: bool
  isUpdateMode :: bool

text \<open>
  The \<open>forEach\<close> over \<open>Object.entries(fieldMapping)\<close> in \<open>transformData\<close>, for one row;
  \<open>Inl k\<close> when the assignment under the destination \<open>k\<close> throws.
\<close>

fun assign_mapped ::
  "jsobj \<Rightarrow> (string \<times> string) list \<Rightarrow> built_object \<Rightarrow> string + built_object" where
  "assign_mapped row [] transformed = Inr transformed"
| "assign_mapped row ((source, target) # rest) transformed =
     (if target \<noteq> [] \<and> get_prop row source \<noteq> JUndefined
      then (case assign transformed target (get_prop row source) of
              Inl k \<Rightarrow> Inl k
            | Inr transformed' \<Rightarrow> assign_mapped row rest transformed')
      else assign_mapped row rest transformed)"

text \<open>
  The function mapped over the parsed rows by \<open>transformData\<close>. The result is the map of
  the own properties of \<open>transformed\<close>, which is all that the later code takes from it:
  the rest destructuring and the request body take own properties, and the reads of
  \<open>id\<close> and \<open>slug\<close> find nothing on any prototype the object can have.
\<close>

definition transform_row ::
  "(string \<times> string) list \<Rightarrow> bool \<Rightarrow> jsobj \<Rightarrow> string + jsobj" where
  "transform_row mapping updateMode row =
     (case (if updateMode \<and> truthy (get_prop row ''id'')
            then assign \<lparr>own = Map.empty, proto = ObjectPrototype\<rparr> ''id'' (get_prop row ''id'')
            else Inr \<lparr>own = Map.empty, proto = ObjectPrototype\<rparr>) of
        Inl k \<Rightarrow> Inl k
      | Inr transformed \<Rightarrow>
          (case assign_mapped row mapping transformed of
             Inl k \<Rightarrow> Inl k
           | Inr transformed' \<Rightarrow> Inr (own transformed')))"

text \<open>\<open>rows.map(...)\<close>: the first row whose transformation throws ends the call.\<close>

fun transform_rows ::
  "(string \<times> string) list \<Rightarrow> bool \<Rightarrow> jsobj list \<Rightarrow> string + jsobj list" where
  "transform_rows mapping updateMode [] = Inr []"
| "transform_rows mapping updateMode (row # rows) =
     (case transform_row mapping updateMode row of
        Inl k \<Rightarrow> Inl k
      | Inr transformed \<Rightarrow>
          (case transform_rows mapping updateMode rows of
             Inl k \<Rightarrow> Inl k
           | Inr rest \<Rightarrow> Inr (transformed # rest)))"

text \<open>
  \<open>transformData\<close>, which \<open>runImport\<close> calls only when \<open>parsedData\<close> holds rows; the rows
  are passed explicitly.
\<close>

definition transformData :: "importer \<Rightarrow> jsobj list \<Rightarrow> string + jsobj list" where
  "transformData imp rows =
     transform_rows (fieldMapping imp) (importer.isUpdateMode imp) rows"

text \<open>The objects passed to \<open>setImportResults\<close> (the \<open>mode\<close> is the constructor below).\<close>

record dry_run_results =
  total :: nat
  preview :: "jsobj list"
  success :: nat
  errors :: "error_entry list"
  isUpdateMode :: bool
  itemsWithId :: nat
  itemsWithSlug :: nat
  itemsNew :: int

record 'r live_results =
  total :: nat
  success :: nat
  errors :: "error_entry list"
  preview :: "'r list"
  updated :: "nat option"
  created :: "nat option"
  isUpdateMode :: bool

text \<open>
  What the \<open>catch\<close> of \<open>runImport\<close> receives: the error of a rejected remote call, with
  its message, or the \<open>TypeError\<close> of an assignment in \<open>transformData\<close>, with the key
  assigned (its message is the engine's). \<open>setError\<close> is called with
  \<open>Import failed:\<close> followed by the message.
\<close>

datatype thrown = RemoteError string | TypeError string

datatype 'r import_outcome =
    NotRun
  | DryRun dry_run_results
  | Live "'r live_results"
  | ImportFailed thrown

text \<open>The dry-run branch of \<open>runImport\<close>.\<close>

definition dry_run :: "bool \<Rightarrow> jsobj list \<Rightarrow> dry_run_results" where
  "dry_run updateMode transformedData =
     (let withId = length (filter (\<lambda>d. truthy (get_prop d ''id'')) transformedData);
          withSlug = length (filter (\<lambda>d. truthy (get_prop d ''slug'')
                                          \<and> \<not> truthy (get_prop d ''id'')) transformedData) in
      \<lparr>dry_run_results.total = length transformedData,
       dry_run_results.preview = take 5 transformedData,
       dry_run_results.success = length transformedData,
       dry_run_results.errors = [],
       dry_run_results.isUpdateMode = updateMode,
       itemsWithId = withId,
       itemsWithSlug = withSlug,
       itemsNew = int (length transformedData) - int withId - int withSlug\<rparr>)"

text \<open>
  \<open>runImport(dryRunOverride)\<close>: what is passed to \<open>setImportResults\<close> or \<open>setError\<close>,
  and the events of the run. \<open>None\<close> is a run that never ends.
\<close>

definition runImport ::
  "'r remote \<Rightarrow> importer \<Rightarrow> bool option \<Rightarrow> ('r import_outcome \<times> event list) option" where
  "runImport env imp dryRunOverride =
     (case (selectedCollection imp, parsedData imp) of
        (Some collectionId, Some rows) \<Rightarrow>
          if rows = [] then Some (NotRun, [])
          else
            (let dryRun = (case dryRunOverride of Some b \<Rightarrow> b | None \<Rightarrow> isDryRun imp) in
             case transformData imp rows of
               Inl k \<Rightarrow> Some (ImportFailed (TypeError k), [])
             | Inr transformedData \<Rightarrow>
             if dryRun then Some (DryRun (dry_run (importer.isUpdateMode imp) transformedData), [])
             else if importer.isUpdateMode imp then
               (case upsertItems env collectionId transformedData True True of
                  None \<Rightarrow> None
                | Some (Inl msg, tr) \<Rightarrow> Some (ImportFailed (RemoteError msg), tr)
                | Some (Inr result, tr) \<Rightarrow>
                    Some (Live \<lparr>live_results.total = upsert_result.total result,
                                live_results.success = length (upsert_result.results result),
                                live_results.errors = upsert_result.errors result,
                                live_results.preview =
                                  map data (take 5 (upsert_result.results result)),
                                live_results.updated = Some (upsert_result.updated result),
                                live_results.created = Some (upsert_result.created result),
                                live_results.isUpdateMode = True\<rparr>, tr))
             else
               (let (result, tr) = createItems env collectionId transformedData True in
                Some (Live \<lparr>live_results.total = create_result.total result,
                            live_results.success = length (create_result.results result),
                            live_results.errors = create_result.errors result,
                            live_results.preview =
                              map data (take 5 (create_result.results result)),
                            live_results.updated = None,
                            live_results.created = None,
                            live_results.isUpdateMode = False\<rparr>, tr)))
      | _ \<Rightarrow> Some (NotRun, []))"

section \<open>Notions used in the statements\<close>

text \<open>The answer of the store to the \<open>j\<close>-th list call of \<open>getAllItems\<close> (offset \<open>100 * j\<close>).\<close>

definition page :: "'r remote \<Rightarrow> string \<Rightarrow> nat \<Rightarrow> string + item list" where
  "page env collectionId j = list_response env (getItems_request collectionId 100 (100 * j))"

definition full_page :: "string + item list \<Rightarrow> bool" where
  "full_page r = (case r of Inr items \<Rightarrow> \<not> length items < 100 | Inl msg \<Rightarrow> False)"

definition short_page :: "string + item list \<Rightarrow> bool" where
  "short_page r = (case r of Inr items \<Rightarrow> length items < 100 | Inl msg \<Rightarrow> False)"

definition page_items :: "string + item list \<Rightarrow> item list" where
  "page_items r = (case r of Inr items \<Rightarrow> items | Inl msg \<Rightarrow> [])"

text \<open>The create and update requests among the events of a run, in order.\<close>

fun write_requests :: "event list \<Rightarrow> request list" where
  "write_requests [] = []"
| "write_requests (Request (CreateItem c d b) # es) = CreateItem c d b # write_requests es"
| "write_requests (Request (UpdateItem c t d b) # es) = UpdateItem c t d b # write_requests es"
| "write_requests (e # es) = write_requests es"

text \<open>The field payload of a create or update request.\<close>

fun item_data :: "request \<Rightarrow> jsobj option" where
  "item_data (GetItems c l off) = None"
| "item_data (CreateItem c d b) = Some d"
| "item_data (UpdateItem c t d b) = Some d"

text \<open>The request that \<open>upsertItems\<close> issues for a row, given the existing items fetched.\<close>

definition row_request :: "string \<Rightarrow> item list \<Rightarrow> bool \<Rightarrow> jsobj \<Rightarrow> request" where
  "row_request collectionId existingItems isLive row =
     upsert_request collectionId (fst (build_lookups existingItems))
       (snd (build_lookups existingItems)) isLive row"

text \<open>
  The (property key, identifier) pairs that the loop over the existing items stores in
  \<open>slugToId\<close>, in the order of the items.
\<close>

definition slug_entries :: "item list \<Rightarrow> (string \<times> jsval) list" where
  "slug_entries ex =
     map (\<lambda>it. (to_key (item_slug it), JStr (item_id it)))
       (filter (\<lambda>it. truthy (item_slug it) \<and> to_key (item_slug it) \<noteq> ''__proto__'') ex)"

subsection \<open>Example stores and rows\<close>

text \<open>
  The example of the specification: item \<open>a1\<close> without a slug, item \<open>other\<close> with slug
  \<open>y\<close>, three rows, and a store on which every request succeeds.
\<close>

definition example_existing :: "item list" where
  "example_existing =
     [\<lparr>item_id = ''a1'', fieldData = Some [''name'' \<mapsto> JStr ''A'']\<rparr>,
      \<lparr>item_id = ''other'', fieldData = Some [''slug'' \<mapsto> JStr ''y'']\<rparr>]"

definition example_rows :: "jsobj list" where
  "example_rows =
     [[''id'' \<mapsto> JStr ''a1'', ''title'' \<mapsto> JStr ''X''],
      [''slug'' \<mapsto> JStr ''y'', ''title'' \<mapsto> JStr ''Y''],
      [''title'' \<mapsto> JStr ''Z'']]"

definition example_store :: "string remote" where
  "example_store =
     \<lparr>list_response = (\<lambda>req. Inr example_existing),
      write_response = (\<lambda>i req. Inr ''ok'')\<rparr>"

text \<open>A store whose first list call returns a full page and whose second returns one item.\<close>

definition paged_store :: "string remote" where
  "paged_store =
     \<lparr>list_response = (\<lambda>req. case req of
          GetItems c l None \<Rightarrow> Inr (replicate 100 \<lparr>item_id = ''p'', fieldData = None\<rparr>)
        | GetItems c l (Some off) \<Rightarrow> Inr [\<lparr>item_id = ''q'', fieldData = None\<rparr>]
        | _ \<Rightarrow> Inl ''Not Found''),
      write_response = (\<lambda>i req. Inr ''ok'')\<rparr>"

text \<open>A store without items whose answer to the request for row 0 is a failure.\<close>

definition failing_store :: "string remote" where
  "failing_store =
     \<lparr>list_response = (\<lambda>req. Inr []),
      write_response = (\<lambda>i req. if i = 0 then Inl ''Validation Error'' else Inr ''ok'')\<rparr>"

definition two_rows :: "jsobj list" where
  "two_rows = [[''title'' \<mapsto> JStr ''P''], [''title'' \<mapsto> JStr ''Q'']]"

text \<open>A row whose slug is the name of a member of \<open>Object.prototype\<close>.\<close>

definition builtin_rows :: "jsobj list" where
  "builtin_rows = [[''slug'' \<mapsto> JStr ''constructor'']]"


definition name_mapped_importer :: "bool \<Rightarrow> importer" where
  "name_mapped_importer updateMode =
     \<lparr>selectedCollection = Some ''c'',
      parsedData = Some [[''id'' \<mapsto> JStr ''a1'', ''name'' \<mapsto> JStr ''A'']],
      fieldMapping = [(''id'', []), (''name'', ''name'')],
      isDryRun = True,
      isUpdateMode = updateMode\<rparr>"

subsection \<open>The classes of the dry-run preview\<close>

text \<open>
  The three classes as the specification names them: a row has an id, has a slug only
  (slug present, id absent), or has neither.
\<close>

datatype row_class = HasId | HasSlugOnly | Neither

definition classify :: "jsobj \<Rightarrow> row_class" where
  "classify d =
     (if truthy (get_prop d ''id'') then HasId
      else if truthy (get_prop d ''slug'') then HasSlugOnly
      else Neither)"

section \<open>Properties of the paginated fetch\<close>

lemma getAllItems_loop_pages:
  assumes "\<forall>j<n. full_page (page env c (m + j))" and "\<not> full_page (page env c (m + n))"
  shows "getAllItems_loop env c (100 * m) acc tr =
           Some (case page env c (m + n) of
                   Inl msg \<Rightarrow> Inl msg
                 | Inr items \<Rightarrow>
                     Inr (acc @ concat (map (\<lambda>j. page_items (page env c j)) [m..<Suc (m + n)])),
                 tr @ Request (getItems_request c 100 (100 * m)) #
                   concat (map (\<lambda>j. [Sleep 150, Request (getItems_request c 100 (100 * j))])
                             [Suc m..<Suc (m + n)]))"
  using assms
proof (induction n arbitrary: m acc tr)
  case 0
  then show ?case
    by (subst getAllItems_loop.simps)
       (auto simp: getItems_def page_def full_page_def page_items_def Let_def split: sum.splits)
next
  case (Suc n)
  from Suc.prems(1) have "full_page (page env c m)"
    by (metis add.right_neutral zero_less_Suc)
  then obtain items where pm: "page env c m = Inr items" and len: "\<not> length items < 100"
    by (auto simp: full_page_def split: sum.splits)
  have a: "\<forall>j<n. full_page (page env c (Suc m + j))"
    using Suc.prems(1) by (metis Suc_less_eq add_Suc_shift)
  have b: "\<not> full_page (page env c (Suc m + n))"
    using Suc.prems(2) by simp
  have step: "getAllItems_loop env c (100 * m) acc tr =
        getAllItems_loop env c (100 * Suc m) (acc @ items)
           ((tr @ [Request (getItems_request c 100 (100 * m))]) @ [Sleep 150])"
    using pm len
    by (subst getAllItems_loop.simps) (simp add: getItems_def page_def Let_def add.commute)
  have upt1: "[m..<Suc (Suc (m + n))] = m # [Suc m..<Suc (Suc (m + n))]"
    by (simp add: upt_conv_Cons)
  have upt2: "[Suc m..<Suc (Suc (m + n))] = Suc m # [Suc (Suc m)..<Suc (Suc (m + n))]"
    by (simp add: upt_conv_Cons)
  show ?case
    unfolding step Suc.IH[OF a b]
    using pm by (simp add: upt1 upt2 page_items_def split: sum.splits del: upt_Suc)
qed

lemma first_not_full:
  assumes "\<not> full_page (page env c k)"
  shows "\<exists>n\<le>k. (\<forall>j<n. full_page (page env c j)) \<and> \<not> full_page (page env c n)"
proof -
  let ?n = "LEAST n. \<not> full_page (page env c n)"
  have "\<not> full_page (page env c ?n)" using assms by (rule LeastI)
  moreover have "?n \<le> k" using assms by (rule Least_le)
  moreover have "\<forall>j<?n. full_page (page env c j)" using not_less_Least by blast
  ultimately show ?thesis by blast
qed

text \<open>
  Claim C7. Whenever some list call of the store would return a short page (call \<open>k\<close>),
  \<open>getAllItems\<close> terminates: it stops at the first call \<open>n \<le> k\<close> whose answer is not a
  full page, after issuing exactly the list requests with page size 100 and offsets
  0, 100, ..., \<open>100 * n\<close> (the offset 0 is sent as an absent parameter), with a wait of
  150 ms between them, and returns the concatenation of the pages 0 to \<open>n\<close> in order
  (or fails with the message of call \<open>n\<close>, when that call fails).
\<close>

theorem getAllItems_pagination:
  assumes "short_page (page env c k)"
  shows "\<exists>n\<le>k. (\<forall>j<n. full_page (page env c j)) \<and> \<not> full_page (page env c n) \<and>
           getAllItems env c =
             Some (case page env c n of
                     Inl msg \<Rightarrow> Inl msg
                   | Inr items \<Rightarrow>
                       Inr (concat (map (\<lambda>j. page_items (page env c j)) [0..<Suc n])),
                   concat (map (\<lambda>j. (if j = 0 then [] else [Sleep 150]) @
                                     [Request (GetItems c (Some 100)
                                        (if j = 0 then None else Some (100 * j)))])
                             [0..<Suc n]))"
proof -
  from assms have "\<not> full_page (page env c k)"
    by (auto simp: short_page_def full_page_def split: sum.splits)
  then obtain n where n: "n \<le> k" "\<forall>j<n. full_page (page env c j)" "\<not> full_page (page env c n)"
    using first_not_full by blast
  have ev: "map (\<lambda>j. [Sleep 150, Request (getItems_request c 100 (100 * j))]) [Suc 0..<Suc n]
          = map (\<lambda>j. (if j = 0 then [] else [Sleep 150]) @
                      [Request (GetItems c (Some 100) (if j = 0 then None else Some (100 * j)))])
              [Suc 0..<Suc n]"
    by (rule map_cong) (auto simp: getItems_request_def)
  have upt0: "[0..<Suc n] = 0 # [Suc 0..<Suc n]" by (simp add: upt_conv_Cons)
  have "getAllItems env c =
             Some (case page env c n of
                     Inl msg \<Rightarrow> Inl msg
                   | Inr items \<Rightarrow>
                       Inr (concat (map (\<lambda>j. page_items (page env c j)) [0..<Suc n])),
                   concat (map (\<lambda>j. (if j = 0 then [] else [Sleep 150]) @
                                     [Request (GetItems c (Some 100)
                                        (if j = 0 then None else Some (100 * j)))])
                             [0..<Suc n]))"
    unfolding getAllItems_def
    using getAllItems_loop_pages[of n env c 0 "[]" "[]"] n(2,3)
    by (cases "page env c n") (simp_all add: upt0 ev[symmetric] getItems_request_def del: upt_Suc)
  with n show ?thesis by blast
qed

theorem getAllItems_pagination_witness:
  "short_page (page paged_store ''c'' 1) \<and>
   getAllItems paged_store ''c'' =
     Some (Inr (replicate 100 \<lparr>item_id = ''p'', fieldData = None\<rparr>
                @ [\<lparr>item_id = ''q'', fieldData = None\<rparr>]),
           [Request (GetItems ''c'' (Some 100) None), Sleep 150,
            Request (GetItems ''c'' (Some 100) (Some 100))])"
proof -
  have h: "short_page (page paged_store ''c'' 1)"
    by (simp add: short_page_def page_def paged_store_def getItems_request_def)
  have p0: "page paged_store ''c'' 0 = Inr (replicate 100 \<lparr>item_id = ''p'', fieldData = None\<rparr>)"
   and p1: "page paged_store ''c'' (Suc 0) = Inr [\<lparr>item_id = ''q'', fieldData = None\<rparr>]"
    by (simp_all add: page_def paged_store_def getItems_request_def)
  from getAllItems_pagination[OF h] obtain n where
     n: "n \<le> 1" "\<not> full_page (page paged_store ''c'' n)" and
     r: "getAllItems paged_store ''c'' =
             Some (case page paged_store ''c'' n of
                     Inl msg \<Rightarrow> Inl msg
                   | Inr items \<Rightarrow>
                       Inr (concat (map (\<lambda>j. page_items (page paged_store ''c'' j)) [0..<Suc n])),
                   concat (map (\<lambda>j. (if j = 0 then [] else [Sleep 150]) @
                                     [Request (GetItems ''c'' (Some 100)
                                        (if j = 0 then None else Some (100 * j)))])
                             [0..<Suc n]))"
    by blast
  have "full_page (page paged_store ''c'' 0)" by (simp add: p0 full_page_def)
  with n(2) have "n \<noteq> 0" by (cases n) auto
  with n(1) have "n = Suc 0" by simp
  with r h show ?thesis by (simp add: p0 p1 page_items_def)
qed

section \<open>Properties of the bulk operations\<close>

lemma upsertItems_loop_fold:
  "upsertItems_loop env c s ids items l p i st =
     fold (upsertItems_step env c s ids items l p) [i..<length items] st"
proof (induction env c s ids items l p i st rule: upsertItems_loop.induct)
  case (1 env c s ids items l p i st)
  show ?case
  proof (cases "i < length items")
    case True
    then show ?thesis using 1 by (subst upsertItems_loop.simps) (simp add: upt_conv_Cons)
  next
    case False
    then show ?thesis by (subst upsertItems_loop.simps) simp
  qed
qed

lemma upsert_fold_results:
  "loop_state.results (fold (upsertItems_step env c s ids items l p) js st) =
     loop_state.results st @
     concat (map (\<lambda>j. case write_response env j (upsert_request c s ids l (items ! j)) of
                          Inr r \<Rightarrow> [Success j r (upsert_action s ids (items ! j))]
                        | Inl m \<Rightarrow> []) js)"
  by (induction js arbitrary: st) (auto simp: upsertItems_step_def Let_def split: sum.splits)

lemma upsert_fold_errors:
  "loop_state.errors (fold (upsertItems_step env c s ids items l p) js st) =
     loop_state.errors st @
     concat (map (\<lambda>j. case write_response env j (upsert_request c s ids l (items ! j)) of
                          Inr r \<Rightarrow> []
                        | Inl m \<Rightarrow> [Failure j m (items ! j)]) js)"
  by (induction js arbitrary: st) (auto simp: upsertItems_step_def Let_def split: sum.splits)

lemma upsert_fold_trace:
  "trace (fold (upsertItems_step env c s ids items l p) js st) =
     trace st @
     concat (map (\<lambda>j. Request (upsert_request c s ids l (items ! j)) #
                        (case write_response env j (upsert_request c s ids l (items ! j)) of
                          Inr r \<Rightarrow> (if p then [Progress (Processed (j + 1) (length items))] else [])
                                    @ (if j < length items - 1 then [Sleep 200] else [])
                        | Inl m \<Rightarrow> [])) js)"
  by (induction js arbitrary: st) (auto simp: upsertItems_step_def Let_def split: sum.splits)

lemma upsertItems_fetched:
  assumes "getAllItems env c = Some (Inr ex, tr)"
  shows "upsertItems env c items l p =
           Some (Inr (fst (upsert_existing env c ex items l p)),
                 (if p then [Progress Fetching] else []) @ tr @ snd (upsert_existing env c ex items l p))"
  using assms by (simp add: upsertItems_def split: prod.splits)

lemma upsert_existing_results:
  "upsert_result.results (fst (upsert_existing env c ex items l p)) =
     concat (map (\<lambda>j. case write_response env j (row_request c ex l (items ! j)) of
                          Inr r \<Rightarrow> [Success j r (upsert_action (fst (build_lookups ex)) (snd (build_lookups ex)) (items ! j))]
                        | Inl m \<Rightarrow> []) [0..<length items])"
  by (simp add: upsert_existing_def Let_def row_request_def upsertItems_loop_fold upsert_fold_results
        case_prod_beta)

lemma upsert_existing_errors:
  "upsert_result.errors (fst (upsert_existing env c ex items l p)) =
     concat (map (\<lambda>j. case write_response env j (row_request c ex l (items ! j)) of
                          Inr r \<Rightarrow> []
                        | Inl m \<Rightarrow> [Failure j m (items ! j)]) [0..<length items])"
  by (simp add: upsert_existing_def Let_def row_request_def upsertItems_loop_fold upsert_fold_errors
        case_prod_beta)

lemma upsert_existing_trace:
  "snd (upsert_existing env c ex items l p) =
     (if p then [Progress (Found (length ex))] else []) @
     concat (map (\<lambda>j. Request (row_request c ex l (items ! j)) #
                        (case write_response env j (row_request c ex l (items ! j)) of
                          Inr r \<Rightarrow> (if p then [Progress (Processed (j + 1) (length items))] else [])
                                    @ (if j < length items - 1 then [Sleep 200] else [])
                        | Inl m \<Rightarrow> [])) [0..<length items])"
  by (simp add: upsert_existing_def Let_def row_request_def upsertItems_loop_fold upsert_fold_trace
        case_prod_beta)

lemma upsert_existing_counts:
  "upsert_result.total (fst (upsert_existing env c ex items l p)) = length items"
  "upsert_result.updated (fst (upsert_existing env c ex items l p)) =
     length (filter (\<lambda>r. action r = Updated) (upsert_result.results (fst (upsert_existing env c ex items l p))))"
  "upsert_result.created (fst (upsert_existing env c ex items l p)) =
     length (filter (\<lambda>r. action r = Created) (upsert_result.results (fst (upsert_existing env c ex items l p))))"
  by (simp_all add: upsert_existing_def Let_def case_prod_beta)

text \<open>Facts about the lists of entries that a row loop builds, index by index.\<close>

lemma index_partition:
  "mset (map success_entry.index (concat (map (\<lambda>j. case f j of Inr r \<Rightarrow> [Success j r (a j)] | Inl m \<Rightarrow> []) js))
         @ map error_entry.index (concat (map (\<lambda>j. case f j of Inr r \<Rightarrow> [] | Inl m \<Rightarrow> [Failure j m (g j)]) js)))
   = mset js"
  by (induction js) (auto split: sum.splits)

lemma success_indices:
  "map success_entry.index (concat (map (\<lambda>j. case f j of Inr r \<Rightarrow> [Success j r (a j)] | Inl m \<Rightarrow> []) js))
   = filter (\<lambda>j. isl (f j) = False) js"
  by (induction js) (auto split: sum.splits)

lemma failure_indices:
  "map error_entry.index (concat (map (\<lambda>j. case f j of Inr r \<Rightarrow> [] | Inl m \<Rightarrow> [Failure j m (g j)]) js))
   = filter (\<lambda>j. isl (f j)) js"
  by (induction js) (auto split: sum.splits)

lemma action_split:
  "length (filter (\<lambda>r. action r = Updated) rs) + length (filter (\<lambda>r. action r = Created) rs) = length rs"
proof (induction rs)
  case Nil then show ?case by simp
next
  case (Cons r rs) then show ?case by (cases "action r") auto
qed

text \<open>
  Claim C2. When the fetch of the existing items succeeds, \<open>upsertItems\<close> returns, every
  row index below the number of rows occurs exactly once in the success list and the error
  list taken together (and no other index does), and the counts satisfy
  created + updated + number of errors = total = number of rows.
\<close>

theorem upsertItems_accounting:
  assumes "getAllItems env c = Some (Inr existingItems, tr)"
  shows "\<exists>res tr'. upsertItems env c items isLive onProgress = Some (Inr res, tr') \<and>
           mset (map success_entry.index (upsert_result.results res)
                 @ map error_entry.index (upsert_result.errors res)) = mset [0..<length items] \<and>
           upsert_result.created res + upsert_result.updated res + length (upsert_result.errors res)
             = upsert_result.total res \<and>
           upsert_result.total res = length items"
proof -
  let ?res = "fst (upsert_existing env c existingItems items isLive onProgress)"
  have part: "mset (map success_entry.index (upsert_result.results ?res)
                 @ map error_entry.index (upsert_result.errors ?res)) = mset [0..<length items]"
    unfolding upsert_existing_results upsert_existing_errors by (rule index_partition)
  have "length (upsert_result.results ?res) + length (upsert_result.errors ?res) = length items"
    using arg_cong[OF part, of size] by simp
  then have "upsert_result.created ?res + upsert_result.updated ?res + length (upsert_result.errors ?res)
             = upsert_result.total ?res"
    using action_split[of "upsert_result.results ?res"] by (simp add: upsert_existing_counts)
  with part upsertItems_fetched[OF assms] show ?thesis
    by (simp add: upsert_existing_counts(1))
qed

lemma createItems_loop_fold:
  "createItems_loop env c items l i st =
     fold (createItems_step env c items l) [i..<length items] st"
proof (induction env c items l i st rule: createItems_loop.induct)
  case (1 env c items l i st)
  show ?case
  proof (cases "i < length items")
    case True
    then show ?thesis using 1 by (subst createItems_loop.simps) (simp add: upt_conv_Cons)
  next
    case False
    then show ?thesis by (subst createItems_loop.simps) simp
  qed
qed

lemma create_fold_results:
  "loop_state.results (fold (createItems_step env c items l) js st) =
     loop_state.results st @
     concat (map (\<lambda>j. case write_response env j (CreateItem c (items ! j) (\<not> l)) of
                          Inr r \<Rightarrow> [Success j r Created]
                        | Inl m \<Rightarrow> []) js)"
  by (induction js arbitrary: st) (auto simp: createItems_step_def Let_def split: sum.splits)

lemma create_fold_errors:
  "loop_state.errors (fold (createItems_step env c items l) js st) =
     loop_state.errors st @
     concat (map (\<lambda>j. case write_response env j (CreateItem c (items ! j) (\<not> l)) of
                          Inr r \<Rightarrow> []
                        | Inl m \<Rightarrow> [Failure j m (items ! j)]) js)"
  by (induction js arbitrary: st) (auto simp: createItems_step_def Let_def split: sum.splits)

lemma createItems_results:
  "create_result.results (fst (createItems env c items l)) =
     concat (map (\<lambda>j. case write_response env j (CreateItem c (items ! j) (\<not> l)) of
                          Inr r \<Rightarrow> [Success j r Created]
                        | Inl m \<Rightarrow> []) [0..<length items])"
  by (simp add: createItems_def Let_def createItems_loop_fold create_fold_results)

lemma createItems_errors:
  "create_result.errors (fst (createItems env c items l)) =
     concat (map (\<lambda>j. case write_response env j (CreateItem c (items ! j) (\<not> l)) of
                          Inr r \<Rightarrow> []
                        | Inl m \<Rightarrow> [Failure j m (items ! j)]) [0..<length items])"
  by (simp add: createItems_def Let_def createItems_loop_fold create_fold_errors)

lemma write_requests_rows:
  "write_requests (concat (map (\<lambda>j. Request (row_request c ex l (items ! j)) #
                        (case f j of
                          Inr r \<Rightarrow> (if p then [Progress (Processed (j + 1) n)] else [])
                                    @ (if j < n - 1 then [Sleep 200] else [])
                        | Inl m \<Rightarrow> [])) js))
   = map (\<lambda>j. row_request c ex l (items ! j)) js"
proof (induction js)
  case Nil then show ?case by simp
next
  case (Cons j js)
  have rq: "\<And>es. write_requests (Request (row_request c ex l (items ! j)) # es)
            = row_request c ex l (items ! j) # write_requests es"
    by (simp add: row_request_def upsert_request_def Let_def)
  have skip: "\<And>es. write_requests ((case f j of
                          Inr r \<Rightarrow> (if p then [Progress (Processed (j + 1) n)] else [])
                                    @ (if j < n - 1 then [Sleep 200] else [])
                        | Inl m \<Rightarrow> []) @ es) = write_requests es"
    by (auto split: sum.splits)
  show ?case using Cons by (simp add: rq skip)
qed

lemma write_requests_append:
  "write_requests (es @ es') = write_requests es @ write_requests es'"
  by (induction es rule: write_requests.induct) auto

lemma getAllItems_loop_no_writes:
  assumes "getAllItems_loop env c off acc tr = Some y"
  shows "write_requests (snd y) = write_requests tr"
proof (rule getAllItems_loop.raw_induct
         [where P = "\<lambda>env c off acc tr y. write_requests (snd y) = write_requests tr",
          OF _ assms])
  fix loop :: "'a remote \<Rightarrow> string \<Rightarrow> nat \<Rightarrow> item list \<Rightarrow> event list
                 \<Rightarrow> ((string + item list) \<times> event list) option"
  fix env c off acc tr y
  assume IH: "\<And>env c off acc tr y. loop env c off acc tr = Some y
                \<Longrightarrow> write_requests (snd y) = write_requests tr"
  assume body: "(let limit = 100;
          tr1 = tr @ [Request (getItems_request c limit off)] in
      case getItems env c limit off of
        Inl msg \<Rightarrow> Some (Inl msg, tr1)
      | Inr items \<Rightarrow>
          if length items < limit then Some (Inr (acc @ items), tr1)
          else loop env c (off + limit) (acc @ items) (tr1 @ [Sleep 150])) = Some y"
  show "write_requests (snd y) = write_requests tr"
  proof (cases "getItems env c 100 off")
    case (Inl msg)
    with body show ?thesis
      by (auto simp: Let_def write_requests_append getItems_request_def)
  next
    case (Inr items)
    show ?thesis
    proof (cases "length items < 100")
      case True
      with Inr body show ?thesis
        by (auto simp: Let_def write_requests_append getItems_request_def)
    next
      case False
      with Inr body have "loop env c (off + 100) (acc @ items)
                 ((tr @ [Request (getItems_request c 100 off)]) @ [Sleep 150]) = Some y"
        by (simp add: Let_def)
      from IH[OF this] show ?thesis
        by (simp add: write_requests_append getItems_request_def)
    qed
  qed
qed

lemma write_requests_fetch:
  assumes "getAllItems env c = Some (r, tr)"
  shows "write_requests tr = []"
  using getAllItems_loop_no_writes[OF assms[unfolded getAllItems_def]] by simp

lemma upsertItems_write_requests:
  assumes "getAllItems env c = Some (Inr ex, tr)"
  shows "write_requests ((if p then [Progress Fetching] else []) @ tr @ snd (upsert_existing env c ex items l p))
         = map (row_request c ex l) items"
proof -
  have "map (\<lambda>j. row_request c ex l (items ! j)) [0..<length items]
          = map (row_request c ex l) (map ((!) items) [0..<length items])"
    by (simp add: comp_def)
  then have "map (\<lambda>j. row_request c ex l (items ! j)) [0..<length items] = map (row_request c ex l) items"
    by (simp only: map_nth)
  then show ?thesis
    using write_requests_fetch[OF assms]
    by (simp add: upsert_existing_trace write_requests_rows write_requests_append)
qed

lemma index_partition_set:
  "j \<in> set js \<Longrightarrow>
   j \<in> success_entry.index ` set (concat (map (\<lambda>j. case f j of Inr r \<Rightarrow> [Success j r (a j)] | Inl m \<Rightarrow> []) js))
   \<or> j \<in> error_entry.index ` set (concat (map (\<lambda>j. case f j of Inr r \<Rightarrow> [] | Inl m \<Rightarrow> [Failure j m (g j)]) js))"
  by (cases "f j") force+

text \<open>
  Claim C3. When the remote call for row \<open>i\<close> fails with message \<open>msg\<close>, the error list
  holds the entry with index \<open>i\<close>, that message and the row; the run still issues one
  request for every row, in row order, and every later row ends in the success list or in
  the error list.
\<close>

theorem upsertItems_failure_recorded:
  assumes "getAllItems env c = Some (Inr existingItems, tr)"
      and "i < length items"
      and "write_response env i (row_request c existingItems isLive (items ! i)) = Inl msg"
  shows "\<exists>res tr'. upsertItems env c items isLive onProgress = Some (Inr res, tr') \<and>
           Failure i msg (items ! i) \<in> set (upsert_result.errors res) \<and>
           write_requests tr' = map (row_request c existingItems isLive) items \<and>
           (\<forall>j. i < j \<and> j < length items \<longrightarrow>
                 j \<in> success_entry.index ` set (upsert_result.results res)
               \<or> j \<in> error_entry.index ` set (upsert_result.errors res))"
proof -
  let ?res = "fst (upsert_existing env c existingItems items isLive onProgress)"
  have "Failure i msg (items ! i) \<in> set (upsert_result.errors ?res)"
    unfolding upsert_existing_errors using assms(2,3) by force
  moreover have "\<forall>j. i < j \<and> j < length items \<longrightarrow>
                 j \<in> success_entry.index ` set (upsert_result.results ?res)
               \<or> j \<in> error_entry.index ` set (upsert_result.errors ?res)"
  proof (intro allI impI)
    fix j assume "i < j \<and> j < length items"
    then have "j \<in> set [0..<length items]" by simp
    then show "j \<in> success_entry.index ` set (upsert_result.results ?res)
               \<or> j \<in> error_entry.index ` set (upsert_result.errors ?res)"
      unfolding upsert_existing_results upsert_existing_errors by (rule index_partition_set)
  qed
  ultimately show ?thesis
    using upsertItems_fetched[OF assms(1)] upsertItems_write_requests[OF assms(1)] by simp
qed

text \<open>
  Claim C5. The \<open>i\<close>-th create or update request of a run of \<open>upsertItems\<close> carries as
  field payload the \<open>i\<close>-th row without its \<open>id\<close> key: the payload has no \<open>id\<close> and
  agrees with the row on every other key.
\<close>

theorem upsertItems_payload:
  assumes "getAllItems env c = Some (Inr existingItems, tr)"
  shows "\<exists>res tr'. upsertItems env c items isLive onProgress = Some (Inr res, tr') \<and>
           length (write_requests tr') = length items \<and>
           (\<forall>i<length items. \<exists>p.
               item_data (write_requests tr' ! i) = Some p \<and>
               p ''id'' = None \<and>
               (\<forall>k. k \<noteq> ''id'' \<longrightarrow> p k = (items ! i) k))"
proof -
  have "\<And>row. \<exists>p. item_data (row_request c existingItems isLive row) = Some p \<and>
               p ''id'' = None \<and> (\<forall>k. k \<noteq> ''id'' \<longrightarrow> p k = row k)"
    by (simp add: row_request_def upsert_request_def Let_def rest_without_id_def)
  then show ?thesis
    using upsertItems_fetched[OF assms] upsertItems_write_requests[OF assms] by simp
qed

text \<open>
  Claim C9. The success list and the error list returned by \<open>upsertItems\<close> (which
  returns when the fetch of the existing items succeeds) and those returned by
  \<open>createItems\<close>, on any input, are each ordered by strictly increasing row index.
\<close>

theorem bulk_lists_ordered:
  "(getAllItems env c = Some (Inr existingItems, tr) \<longrightarrow>
      (\<exists>res tr'. upsertItems env c items isLive onProgress = Some (Inr res, tr') \<and>
            sorted_wrt (<) (map success_entry.index (upsert_result.results res)) \<and>
            sorted_wrt (<) (map error_entry.index (upsert_result.errors res)))) \<and>
   sorted_wrt (<) (map success_entry.index
      (create_result.results (fst (createItems env' c' items' isLive')))) \<and>
   sorted_wrt (<) (map error_entry.index
      (create_result.errors (fst (createItems env' c' items' isLive'))))"
proof -
  have s: "\<And>P n. sorted_wrt (<) (filter P [0..<n])"
    by (rule sorted_wrt_filter) (rule sorted_wrt_upt)
  have u: "\<exists>res tr'. upsertItems env c items isLive onProgress = Some (Inr res, tr') \<and>
            sorted_wrt (<) (map success_entry.index (upsert_result.results res)) \<and>
            sorted_wrt (<) (map error_entry.index (upsert_result.errors res))"
    if "getAllItems env c = Some (Inr existingItems, tr)"
    using upsertItems_fetched[OF that]
    by (simp add: upsert_existing_results upsert_existing_errors success_indices
          failure_indices s)
  have c: "sorted_wrt (<) (map success_entry.index
             (create_result.results (fst (createItems env' c' items' isLive'))))"
          "sorted_wrt (<) (map error_entry.index
             (create_result.errors (fst (createItems env' c' items' isLive'))))"
    by (simp_all add: createItems_results createItems_errors success_indices failure_indices s)
  from u c show ?thesis by blast
qed

section \<open>The decision taken for a row\<close>

text \<open>
  What the two lookups hold: \<open>idSet\<close> holds the identifiers of the existing items, and
  \<open>slugToId\<close> maps the key of each truthy slug to the identifier of the last item with
  that slug.
\<close>

lemma fold_add_existing_idSet:
  "snd (fold add_existing ex (m, S)) = S \<union> (\<lambda>it. JStr (item_id it)) ` set ex"
  by (induction ex arbitrary: m S) (auto simp: add_existing_def)

lemma build_lookups_idSet:
  "snd (build_lookups ex) = (\<lambda>it. JStr (item_id it)) ` set ex"
  by (simp add: build_lookups_def fold_add_existing_idSet)

lemma fold_add_existing_slugToId:
  assumes "m ''__proto__'' = None"
  shows "fst (fold add_existing ex (m, S)) = m ++ map_of (rev (slug_entries ex))"
  using assms
proof (induction ex arbitrary: m S)
  case Nil
  then show ?case by (simp add: slug_entries_def)
next
  case (Cons it ex)
  show ?case
  proof (cases "truthy (item_slug it) \<and> to_key (item_slug it) \<noteq> ''__proto__''")
    case True
    let ?m = "m(to_key (item_slug it) \<mapsto> JStr (item_id it))"
    have p: "?m ''__proto__'' = None" using True Cons.prems by auto
    have st: "add_existing it (m, S) = (?m, insert (JStr (item_id it)) S)"
      using True by (simp add: add_existing_def set_prop_def)
    have e: "slug_entries (it # ex) = (to_key (item_slug it), JStr (item_id it)) # slug_entries ex"
      using True by (simp add: slug_entries_def)
    have "fst (fold add_existing (it # ex) (m, S))
            = fst (fold add_existing ex (?m, insert (JStr (item_id it)) S))"
      by (simp only: fold_simps st)
    also have "\<dots> = ?m ++ map_of (rev (slug_entries ex))"
      by (rule Cons.IH[of ?m "insert (JStr (item_id it)) S", OF p])
    also have "\<dots> = m ++ map_of (rev (slug_entries (it # ex)))"
      unfolding e by (simp add: map_of_append)
    finally show ?thesis .
  next
    case False
    have st: "add_existing it (m, S) = (m, insert (JStr (item_id it)) S)"
      using False Cons.prems by (auto simp add: add_existing_def set_prop_def)
    have e: "slug_entries (it # ex) = slug_entries ex"
      using False by (simp add: slug_entries_def)
    have "fst (fold add_existing (it # ex) (m, S))
            = fst (fold add_existing ex (m, insert (JStr (item_id it)) S))"
      by (simp only: fold_simps st)
    also have "\<dots> = m ++ map_of (rev (slug_entries ex))"
      by (rule Cons.IH[of m "insert (JStr (item_id it)) S", OF Cons.prems])
    finally show ?thesis by (simp only: e)
  qed
qed

lemma build_lookups_slugToId:
  "fst (build_lookups ex) = map_of (rev (slug_entries ex))"
  by (simp add: build_lookups_def fold_add_existing_slugToId)

lemma slug_entries_keys:
  "fst ` set (slug_entries ex) =
     {to_key (item_slug it) | it. it \<in> set ex \<and> truthy (item_slug it)
                                  \<and> to_key (item_slug it) \<noteq> ''__proto__''}"
  unfolding slug_entries_def by (simp add: image_image) blast

lemma slugToId_None:
  assumes "\<forall>it \<in> set ex. truthy (item_slug it) \<longrightarrow> to_key (item_slug it) \<noteq> k"
  shows "fst (build_lookups ex) k = None"
proof -
  have "k \<notin> fst ` set (slug_entries ex)"
    unfolding slug_entries_keys using assms by blast
  then show ?thesis
    unfolding build_lookups_slugToId by (simp add: map_of_eq_None_iff)
qed

lemma slugToId_Some:
  assumes "it \<in> set ex" "truthy (item_slug it)" "to_key (item_slug it) = k" "k \<noteq> ''__proto__''"
  shows "\<exists>it' \<in> set ex. truthy (item_slug it') \<and> to_key (item_slug it') = k
           \<and> fst (build_lookups ex) k = Some (JStr (item_id it'))"
proof -
  have "k \<in> fst ` set (rev (slug_entries ex))"
    unfolding set_rev slug_entries_keys using assms by blast
  then have "map_of (rev (slug_entries ex)) k \<noteq> None"
    by (simp only: map_of_eq_None_iff not_not)
  then obtain v where v: "map_of (rev (slug_entries ex)) k = Some v" by blast
  then have "(k, v) \<in> set (slug_entries ex)" using map_of_SomeD by fastforce
  then obtain it' where "it' \<in> set ex" "truthy (item_slug it')" "to_key (item_slug it') = k"
      "v = JStr (item_id it')"
    unfolding slug_entries_def by auto
  with v show ?thesis unfolding build_lookups_slugToId by blast
qed

text \<open>
  The request issued for a row, case by case: an update by identifier; else an update by
  slug, of an item that has the slug; else a create, when the slug is absent or matches
  no item and is not the name of a member of \<open>Object.prototype\<close>; and, when it is such
  a name and matches no item, an update aimed at the inherited member.
\<close>

lemma row_slug:
  "get_prop (rest_without_id row) ''slug'' = get_prop row ''slug''"
  by (simp add: get_prop_def rest_without_id_def)

lemma existingId_of_row:
  "existingId_of s ids row =
     (if truthy (get_prop row ''id'') \<and> get_prop row ''id'' \<in> ids then get_prop row ''id''
      else if truthy (get_prop row ''slug'')
              \<and> truthy (get_prop s (to_key (get_prop row ''slug'')))
      then get_prop s (to_key (get_prop row ''slug''))
      else JNull)"
  by (simp add: existingId_of_def Let_def row_slug)

lemma row_request_by_id:
  assumes "truthy (get_prop row ''id'')"
      and "get_prop row ''id'' \<in> (\<lambda>it. JStr (item_id it)) ` set ex"
  shows "row_request c ex l row = UpdateItem c (get_prop row ''id'') (row(''id'' := None)) l"
  using assms
  by (simp add: row_request_def upsert_request_def existingId_of_def Let_def
        build_lookups_idSet rest_without_id_def)

lemma row_request_by_slug:
  assumes "\<not> (truthy (get_prop row ''id'')
              \<and> get_prop row ''id'' \<in> (\<lambda>it. JStr (item_id it)) ` set ex)"
      and "truthy (get_prop row ''slug'')"
      and "to_key (get_prop row ''slug'') \<noteq> ''__proto__''"
      and "it \<in> set ex" "truthy (item_slug it)"
          "to_key (item_slug it) = to_key (get_prop row ''slug'')"
      and "\<forall>it \<in> set ex. item_id it \<noteq> []"
  shows "\<exists>it' \<in> set ex. truthy (item_slug it')
            \<and> to_key (item_slug it') = to_key (get_prop row ''slug'')
            \<and> row_request c ex l row = UpdateItem c (JStr (item_id it')) (row(''id'' := None)) l"
proof -
  from slugToId_Some[OF assms(4,5,6,3)] obtain it' where
    it': "it' \<in> set ex" "truthy (item_slug it')"
         "to_key (item_slug it') = to_key (get_prop row ''slug'')"
         "fst (build_lookups ex) (to_key (get_prop row ''slug'')) = Some (JStr (item_id it'))"
    by blast
  have t: "truthy (JStr (item_id it'))" using assms(7) it'(1) by simp
  have "row_request c ex l row = UpdateItem c (JStr (item_id it')) (row(''id'' := None)) l"
    using assms(1,2) it'(4) t
    by (auto simp add: row_request_def upsert_request_def existingId_of_row Let_def
          build_lookups_idSet get_prop_def[of "fst (build_lookups ex)"]
          rest_without_id_def)
  with it' show ?thesis by blast
qed

lemma row_request_create:
  assumes "\<not> (truthy (get_prop row ''id'')
              \<and> get_prop row ''id'' \<in> (\<lambda>it. JStr (item_id it)) ` set ex)"
      and "\<not> truthy (get_prop row ''slug'')
           \<or> (to_key (get_prop row ''slug'') \<notin> set proto_names
              \<and> (\<forall>it \<in> set ex. truthy (item_slug it)
                    \<longrightarrow> to_key (item_slug it) \<noteq> to_key (get_prop row ''slug'')))"
  shows "row_request c ex l row = CreateItem c (row(''id'' := None)) (\<not> l)"
proof -
  have "\<not> truthy (get_prop row ''slug'')
        \<or> get_prop (fst (build_lookups ex)) (to_key (get_prop row ''slug'')) = JUndefined"
    using assms(2) by (auto simp: get_prop_def[of "fst (build_lookups ex)"] slugToId_None)
  then show ?thesis
    using assms(1)
    by (auto simp add: row_request_def upsert_request_def existingId_of_row Let_def
          build_lookups_idSet rest_without_id_def)
qed

lemma row_request_inherited:
  assumes "\<not> (truthy (get_prop row ''id'')
              \<and> get_prop row ''id'' \<in> (\<lambda>it. JStr (item_id it)) ` set ex)"
      and "truthy (get_prop row ''slug'')"
      and "to_key (get_prop row ''slug'') \<in> set proto_names"
      and "\<forall>it \<in> set ex. truthy (item_slug it)
              \<longrightarrow> to_key (item_slug it) \<noteq> to_key (get_prop row ''slug'')"
  shows "row_request c ex l row =
           UpdateItem c (JNative (to_key (get_prop row ''slug''))) (row(''id'' := None)) l"
proof -
  have "get_prop (fst (build_lookups ex)) (to_key (get_prop row ''slug''))
          = JNative (to_key (get_prop row ''slug''))"
    using assms(3,4) by (simp add: get_prop_def[of "fst (build_lookups ex)"] slugToId_None)
  then show ?thesis
    using assms(1,2)
    by (auto simp add: row_request_def upsert_request_def existingId_of_row Let_def
          build_lookups_idSet rest_without_id_def)
qed

text \<open>Every wait of the row loop of \<open>upsertItems\<close> lasts 200 ms.\<close>

lemma upsert_existing_sleeps:
  "Sleep d \<in> set (snd (upsert_existing env c ex items l p)) \<Longrightarrow> d = 200"
  by (auto simp: upsert_existing_trace split: sum.splits if_splits)

section \<open>Properties of the importer\<close>

lemma class_counts:
  "length (filter (\<lambda>d. classify d = HasId) xs)
   + length (filter (\<lambda>d. classify d = HasSlugOnly) xs)
   + length (filter (\<lambda>d. classify d = Neither) xs) = length xs"
proof (induction xs)
  case Nil then show ?case by simp
next
  case (Cons d xs) then show ?case by (cases "classify d") auto
qed

lemma classify_iff:
  "classify d = HasId \<longleftrightarrow> truthy (get_prop d ''id'')"
  "classify d = HasSlugOnly \<longleftrightarrow> truthy (get_prop d ''slug'') \<and> \<not> truthy (get_prop d ''id'')"
  by (auto simp: classify_def)

lemma transform_rows_nth:
  assumes "transform_rows mapping updateMode rows = Inr td"
  shows "length td = length rows \<and>
         (\<forall>i<length rows. transform_row mapping updateMode (rows ! i) = Inr (td ! i))"
  using assms
proof (induction rows arbitrary: td)
  case Nil
  then show ?case by simp
next
  case (Cons row rows)
  from Cons.prems obtain t ts where
    t: "transform_row mapping updateMode row = Inr t" and
    ts: "transform_rows mapping updateMode rows = Inr ts" and
    td: "td = t # ts"
    by (auto split: sum.splits)
  from Cons.IH[OF ts] have len: "length ts = length rows"
    and nth: "\<forall>i<length rows. transform_row mapping updateMode (rows ! i) = Inr (ts ! i)"
    by simp_all
  show ?case
  proof (intro conjI allI impI)
    show "length td = length (row # rows)" using len td by simp
  next
    fix i assume "i < length (row # rows)"
    then show "transform_row mapping updateMode ((row # rows) ! i) = Inr (td ! i)"
      using t nth td by (cases i) simp_all
  qed
qed

text \<open>
  Claim C6. A dry run of \<open>runImport\<close> (rows loaded, a collection selected) issues no
  event, so no remote call, whatever the remote store is. When \<open>transformData\<close> returns
  the transformed rows, the result is \<open>dry_run\<close> of them: its three counts are the sizes
  of the classes "has id", "has slug only" and "neither" of the transformed rows, so that
  they add up to the total, which is the number of rows, and the preview is the first
  five transformed rows. When an assignment in \<open>transformData\<close> throws, the run reports
  that failure instead.
\<close>

theorem dry_run_preview:
  assumes "selectedCollection imp = Some collectionId"
      and "parsedData imp = Some rows"
      and "rows \<noteq> []"
      and "(case dryRunOverride of Some b \<Rightarrow> b | None \<Rightarrow> isDryRun imp)"
  shows "case transformData imp rows of
           Inl k \<Rightarrow>
             (\<forall>env :: 'r remote.
                runImport env imp dryRunOverride = Some (ImportFailed (TypeError k), []))
         | Inr transformed \<Rightarrow>
             (\<exists>r. (\<forall>env :: 'r remote.
                      runImport env imp dryRunOverride = Some (DryRun r, [])) \<and>
               r = dry_run (importer.isUpdateMode imp) transformed \<and>
               itemsWithId r = length (filter (\<lambda>d. classify d = HasId) transformed) \<and>
               itemsWithSlug r = length (filter (\<lambda>d. classify d = HasSlugOnly) transformed) \<and>
               itemsNew r = int (length (filter (\<lambda>d. classify d = Neither) transformed)) \<and>
               int (itemsWithId r) + int (itemsWithSlug r) + itemsNew r
                 = int (dry_run_results.total r) \<and>
               dry_run_results.total r = length rows \<and>
               dry_run_results.preview r = take 5 transformed)"
proof (cases "transformData imp rows")
  case (Inl k)
  then show ?thesis using assms by (simp add: runImport_def Let_def)
next
  case (Inr td)
  let ?r = "dry_run (importer.isUpdateMode imp) td"
  have run: "\<And>env :: 'r remote. runImport env imp dryRunOverride = Some (DryRun ?r, [])"
    using assms Inr by (simp add: runImport_def Let_def)
  have a: "itemsWithId ?r = length (filter (\<lambda>d. classify d = HasId) td)"
    by (simp add: dry_run_def Let_def classify_iff)
  have b: "itemsWithSlug ?r = length (filter (\<lambda>d. classify d = HasSlugOnly) td)"
    by (simp add: dry_run_def Let_def classify_iff)
  have t: "dry_run_results.total ?r = length td" "dry_run_results.preview ?r = take 5 td"
          "itemsNew ?r = int (length td) - int (itemsWithId ?r) - int (itemsWithSlug ?r)"
    by (simp_all add: dry_run_def Let_def)
  have n: "itemsNew ?r = int (length (filter (\<lambda>d. classify d = Neither) td))"
    using class_counts[of td] unfolding t(3) a b by linarith
  have len: "length td = length rows"
    using Inr transform_rows_nth by (simp add: transformData_def)
  have "\<exists>r. (\<forall>env :: 'r remote.
                      runImport env imp dryRunOverride = Some (DryRun r, [])) \<and>
               r = dry_run (importer.isUpdateMode imp) td \<and>
               itemsWithId r = length (filter (\<lambda>d. classify d = HasId) td) \<and>
               itemsWithSlug r = length (filter (\<lambda>d. classify d = HasSlugOnly) td) \<and>
               itemsNew r = int (length (filter (\<lambda>d. classify d = Neither) td)) \<and>
               int (itemsWithId r) + int (itemsWithSlug r) + itemsNew r
                 = int (dry_run_results.total r) \<and>
               dry_run_results.total r = length rows \<and>
               dry_run_results.preview r = take 5 td"
    using run a b n t(1,2) len class_counts[of td] by (intro exI[of _ ?r]) simp
  then show ?thesis by (simp add: Inr)
qed





text \<open>
  With no destination \<open>__proto__\<close> the prototype of the transformed row stays
  \<open>Object.prototype\<close>, no assignment throws, and \<open>transformData\<close> returns.
\<close>

lemma assign_plain:
  assumes "proto obj = ObjectPrototype" and "k \<noteq> ''__proto__''"
  shows "\<exists>obj'. assign obj k v = Inr obj' \<and> proto obj' = ObjectPrototype"
  using assms by (simp add: assign_def)

lemma assign_mapped_returns:
  assumes "''__proto__'' \<notin> snd ` set mapping" and "proto transformed = ObjectPrototype"
  shows "\<exists>transformed'. assign_mapped row mapping transformed = Inr transformed'"
  using assms
proof (induction mapping arbitrary: transformed)
  case Nil
  then show ?case by simp
next
  case (Cons e mapping)
  obtain source target where e: "e = (source, target)" by (cases e)
  from Cons.prems(1) e have neq: "target \<noteq> ''__proto__''"
    and rest: "''__proto__'' \<notin> snd ` set mapping" by auto
  from assign_plain[OF Cons.prems(2) neq, of "get_prop row source"] obtain mid where
    mid: "assign transformed target (get_prop row source) = Inr mid"
    and pm: "proto mid = ObjectPrototype" by blast
  from Cons.IH[OF rest pm] Cons.IH[OF rest Cons.prems(2)] show ?case
    by (simp add: e mid)
qed

lemma transform_row_returns:
  assumes "''__proto__'' \<notin> snd ` set mapping"
  shows "\<exists>transformed. transform_row mapping updateMode row = Inr transformed"
proof -
  let ?init = "if updateMode \<and> truthy (get_prop row ''id'')
               then \<lparr>own = [''id'' \<mapsto> get_prop row ''id''], proto = ObjectPrototype\<rparr>
               else \<lparr>own = Map.empty, proto = ObjectPrototype\<rparr>"
  have init: "(if updateMode \<and> truthy (get_prop row ''id'')
            then assign \<lparr>own = Map.empty, proto = ObjectPrototype\<rparr> ''id'' (get_prop row ''id'')
            else Inr \<lparr>own = Map.empty, proto = ObjectPrototype\<rparr>) = Inr ?init"
    by (simp add: assign_def)
  have "proto ?init = ObjectPrototype" by simp
  from assign_mapped_returns[OF assms this] obtain t' where
    "assign_mapped row mapping ?init = Inr t'" by blast
  then show ?thesis unfolding transform_row_def init by simp
qed

lemma transformData_returns:
  assumes "''__proto__'' \<notin> snd ` set (fieldMapping imp)"
  shows "\<exists>transformed. transformData imp rows = Inr transformed"
proof (induction rows)
  case Nil
  then show ?case by (simp add: transformData_def)
next
  case (Cons row rows)
  from transform_row_returns[OF assms] obtain t where
    "transform_row (fieldMapping imp) (importer.isUpdateMode imp) row = Inr t" by blast
  with Cons show ?case by (auto simp: transformData_def)
qed



section \<open>The examples\<close>

lemma example_fetch:
  "getAllItems example_store c = Some (Inr example_existing, [Request (GetItems c (Some 100) None)])"
  unfolding getAllItems_def
  by (subst getAllItems_loop.simps)
     (simp add: getItems_def getItems_request_def example_store_def example_existing_def)

lemma example_lookups:
  "build_lookups example_existing = ([''y'' \<mapsto> JStr ''other''], {JStr ''a1'', JStr ''other''})"
  by (auto simp add: build_lookups_def example_existing_def add_existing_def item_slug_def
        get_prop_def set_prop_def proto_names_def)

lemma example_requests:
  "row_request c example_existing l [''id'' \<mapsto> JStr ''a1'', ''title'' \<mapsto> JStr ''X'']
     = UpdateItem c (JStr ''a1'') [''title'' \<mapsto> JStr ''X''] l"
  "row_request c example_existing l [''slug'' \<mapsto> JStr ''y'', ''title'' \<mapsto> JStr ''Y'']
     = UpdateItem c (JStr ''other'') [''slug'' \<mapsto> JStr ''y'', ''title'' \<mapsto> JStr ''Y''] l"
  "row_request c example_existing l [''title'' \<mapsto> JStr ''Z'']
     = CreateItem c [''title'' \<mapsto> JStr ''Z''] (\<not> l)"
  by (auto simp add: row_request_def example_lookups upsert_request_def existingId_of_def
        get_prop_def rest_without_id_def proto_names_def fun_eq_iff)

lemma example_actions:
  "upsert_action (fst (build_lookups example_existing)) (snd (build_lookups example_existing))
      [''id'' \<mapsto> JStr ''a1'', ''title'' \<mapsto> JStr ''X''] = Updated"
  "upsert_action (fst (build_lookups example_existing)) (snd (build_lookups example_existing))
      [''slug'' \<mapsto> JStr ''y'', ''title'' \<mapsto> JStr ''Y''] = Updated"
  "upsert_action (fst (build_lookups example_existing)) (snd (build_lookups example_existing))
      [''title'' \<mapsto> JStr ''Z''] = Created"
  by (auto simp add: example_lookups upsert_action_def existingId_of_def
        get_prop_def rest_without_id_def proto_names_def)

lemma upt3: "[0..<3] = [0, 1, 2]"
  by (simp add: upt_rec)

text \<open>
  Claim C4. On the rows \<open>{id: a1, title: X}\<close>, \<open>{slug: y, title: Y}\<close>, \<open>{title: Z}\<close>
  against the existing items \<open>a1\<close> (no slug) and \<open>other\<close> (slug \<open>y\<close>), with every
  remote call succeeding, \<open>upsertItems\<close> updates \<open>a1\<close> for row 0, updates \<open>other\<close> for
  row 1, creates for row 2, and returns created = 1, updated = 2 and no error.
\<close>

theorem upsertItems_example:
  "upsertItems example_store ''c'' example_rows True False =
     Some (Inr \<lparr>upsert_result.results =
                  [Success 0 ''ok'' Updated, Success 1 ''ok'' Updated, Success 2 ''ok'' Created],
                upsert_result.errors = [],
                upsert_result.total = 3,
                upsert_result.updated = 2,
                upsert_result.created = 1\<rparr>,
           [Request (GetItems ''c'' (Some 100) None),
            Request (UpdateItem ''c'' (JStr ''a1'') [''title'' \<mapsto> JStr ''X''] True),
            Sleep 200,
            Request (UpdateItem ''c'' (JStr ''other'')
                       [''slug'' \<mapsto> JStr ''y'', ''title'' \<mapsto> JStr ''Y''] True),
            Sleep 200,
            Request (CreateItem ''c'' [''title'' \<mapsto> JStr ''Z''] False)])"
proof -
  let ?r = "fst (upsert_existing example_store ''c'' example_existing example_rows True False)"
  have len: "length example_rows = 3" by (simp add: example_rows_def)
  have nth: "example_rows ! 0 = [''id'' \<mapsto> JStr ''a1'', ''title'' \<mapsto> JStr ''X'']"
     "example_rows ! Suc 0 = [''slug'' \<mapsto> JStr ''y'', ''title'' \<mapsto> JStr ''Y'']"
     "example_rows ! 2 = [''title'' \<mapsto> JStr ''Z'']"
    by (simp_all add: example_rows_def)
  have wr: "\<And>i req. write_response example_store i req = Inr ''ok''"
    by (simp add: example_store_def)
  have r1: "upsert_result.results ?r = [Success 0 ''ok'' Updated, Success 1 ''ok'' Updated, Success 2 ''ok'' Created]"
    by (simp add: upsert_existing_results len upt3 nth wr example_actions)
  have r2: "upsert_result.errors ?r = []"
    by (simp add: upsert_existing_errors len upt3 nth wr)
  have r3: "upsert_result.total ?r = 3" "upsert_result.updated ?r = 2" "upsert_result.created ?r = 1"
    by (simp_all add: upsert_existing_counts r1 len)
  have r: "?r = \<lparr>upsert_result.results =
                  [Success 0 ''ok'' Updated, Success 1 ''ok'' Updated, Success 2 ''ok'' Created],
                upsert_result.errors = [],
                upsert_result.total = 3,
                upsert_result.updated = 2,
                upsert_result.created = 1\<rparr>"
    using r1 r2 r3 by (cases ?r) simp
  have t: "snd (upsert_existing example_store ''c'' example_existing example_rows True False) =
           [Request (UpdateItem ''c'' (JStr ''a1'') [''title'' \<mapsto> JStr ''X''] True),
            Sleep 200,
            Request (UpdateItem ''c'' (JStr ''other'')
                       [''slug'' \<mapsto> JStr ''y'', ''title'' \<mapsto> JStr ''Y''] True),
            Sleep 200,
            Request (CreateItem ''c'' [''title'' \<mapsto> JStr ''Z''] False)]"
    by (simp add: upsert_existing_trace len upt3 nth wr example_requests)
  show ?thesis
    unfolding upsertItems_fetched[OF example_fetch] r t by simp
qed

text \<open>Instances of the theorems above on the example stores.\<close>

theorem upsertItems_accounting_witness:
  "getAllItems example_store ''c''
     = Some (Inr example_existing, [Request (GetItems ''c'' (Some 100) None)]) \<and>
   (\<exists>res tr'. upsertItems example_store ''c'' example_rows True False = Some (Inr res, tr') \<and>
           mset (map success_entry.index (upsert_result.results res)
                 @ map error_entry.index (upsert_result.errors res)) = mset [0..<3] \<and>
           upsert_result.created res + upsert_result.updated res + length (upsert_result.errors res)
             = upsert_result.total res \<and>
           upsert_result.total res = 3)"
proof -
  have len: "length example_rows = 3" by (simp add: example_rows_def)
  show ?thesis
    using example_fetch[of "''c''"]
          upsertItems_accounting[OF example_fetch, of "''c''" example_rows True False]
    unfolding len by blast
qed

lemma failing_fetch:
  "getAllItems failing_store c = Some (Inr [], [Request (GetItems c (Some 100) None)])"
  unfolding getAllItems_def
  by (subst getAllItems_loop.simps)
     (simp add: getItems_def getItems_request_def failing_store_def)

lemma two_rows_requests:
  "row_request c [] l [''title'' \<mapsto> JStr ''P''] = CreateItem c [''title'' \<mapsto> JStr ''P''] (\<not> l)"
  "row_request c [] l [''title'' \<mapsto> JStr ''Q''] = CreateItem c [''title'' \<mapsto> JStr ''Q''] (\<not> l)"
  by (auto simp add: row_request_def build_lookups_def upsert_request_def existingId_of_def
        get_prop_def rest_without_id_def proto_names_def fun_eq_iff)

theorem upsertItems_failure_recorded_witness:
  "getAllItems failing_store ''c'' = Some (Inr [], [Request (GetItems ''c'' (Some 100) None)]) \<and>
   0 < length two_rows \<and>
   write_response failing_store 0 (row_request ''c'' [] True (two_rows ! 0)) = Inl ''Validation Error'' \<and>
   (\<exists>res tr'. upsertItems failing_store ''c'' two_rows True False = Some (Inr res, tr') \<and>
           Failure 0 ''Validation Error'' (two_rows ! 0) \<in> set (upsert_result.errors res) \<and>
           write_requests tr' = map (row_request ''c'' [] True) two_rows \<and>
           (\<forall>j. 0 < j \<and> j < length two_rows \<longrightarrow>
                 j \<in> success_entry.index ` set (upsert_result.results res)
               \<or> j \<in> error_entry.index ` set (upsert_result.errors res)))"
proof -
  have a: "0 < length two_rows" by (simp add: two_rows_def)
  have b: "write_response failing_store 0 (row_request ''c'' [] True (two_rows ! 0))
             = Inl ''Validation Error''"
    by (simp add: failing_store_def)
  show ?thesis
    using failing_fetch[of "''c''"] a b
          upsertItems_failure_recorded[OF failing_fetch a b, of False]
    by blast
qed

theorem upsertItems_payload_witness:
  "getAllItems example_store ''c''
     = Some (Inr example_existing, [Request (GetItems ''c'' (Some 100) None)]) \<and>
   (\<exists>res tr'. upsertItems example_store ''c'' example_rows True False = Some (Inr res, tr') \<and>
           length (write_requests tr') = length example_rows \<and>
           (\<forall>i<length example_rows. \<exists>p.
               item_data (write_requests tr' ! i) = Some p \<and>
               p ''id'' = None \<and>
               (\<forall>k. k \<noteq> ''id'' \<longrightarrow> p k = (example_rows ! i) k)))"
  using example_fetch[of "''c''"]
        upsertItems_payload[OF example_fetch, of "''c''" example_rows True False]
  by blast

theorem bulk_lists_ordered_witness:
  "getAllItems example_store ''c''
     = Some (Inr example_existing, [Request (GetItems ''c'' (Some 100) None)]) \<and>
   (\<exists>res tr'. upsertItems example_store ''c'' example_rows True False = Some (Inr res, tr') \<and>
            sorted_wrt (<) (map success_entry.index (upsert_result.results res)) \<and>
            sorted_wrt (<) (map error_entry.index (upsert_result.errors res))) \<and>
   sorted_wrt (<) (map success_entry.index
            (create_result.results (fst (createItems failing_store ''c'' two_rows True)))) \<and>
   sorted_wrt (<) (map error_entry.index
            (create_result.errors (fst (createItems failing_store ''c'' two_rows True))))"
  using example_fetch[of "''c''"]
        bulk_lists_ordered[of example_store "''c''" example_existing
          "[Request (GetItems ''c'' (Some 100) None)]" example_rows True False
          failing_store "''c''" two_rows True]
  by blast

lemma builtin_request:
  "row_request c example_existing l [''slug'' \<mapsto> JStr ''constructor'']
     = UpdateItem c (JNative ''constructor'') [''slug'' \<mapsto> JStr ''constructor''] l"
  by (auto simp add: row_request_def example_lookups upsert_request_def existingId_of_def
        get_prop_def rest_without_id_def proto_names_def fun_eq_iff)

lemma builtin_action:
  "upsert_action (fst (build_lookups example_existing)) (snd (build_lookups example_existing))
      [''slug'' \<mapsto> JStr ''constructor''] = Updated"
  by (auto simp add: example_lookups upsert_action_def existingId_of_def
        get_prop_def rest_without_id_def proto_names_def)

lemma upt2: "[0..<2] = [0, Suc 0]"
  by (simp add: upt_rec)

text \<open>
  Claim C1 at a row whose slug is \<open>constructor\<close>, against the same existing items (none
  has that slug, and the row has no \<open>id\<close>): the read \<open>slugToId[''constructor'']\<close> yields
  the member inherited from \<open>Object.prototype\<close>, which is truthy, so \<open>upsertItems\<close>
  issues an update whose target is that built-in function, tagged \<open>updated\<close>; it does not
  issue a create.
\<close>

theorem upsertItems_builtin_slug:
  "upsertItems example_store ''c'' builtin_rows True False =
     Some (Inr \<lparr>upsert_result.results = [Success 0 ''ok'' Updated],
                upsert_result.errors = [],
                upsert_result.total = 1,
                upsert_result.updated = 1,
                upsert_result.created = 0\<rparr>,
           [Request (GetItems ''c'' (Some 100) None),
            Request (UpdateItem ''c'' (JNative ''constructor'')
                       [''slug'' \<mapsto> JStr ''constructor''] True)])"
proof -
  let ?r = "fst (upsert_existing example_store ''c'' example_existing builtin_rows True False)"
  have len: "length builtin_rows = 1" by (simp add: builtin_rows_def)
  have nth: "builtin_rows ! 0 = [''slug'' \<mapsto> JStr ''constructor'']"
    by (simp add: builtin_rows_def)
  have wr: "\<And>i req. write_response example_store i req = Inr ''ok''"
    by (simp add: example_store_def)
  have r1: "upsert_result.results ?r = [Success 0 ''ok'' Updated]"
    by (simp add: upsert_existing_results len nth wr builtin_action)
  have r2: "upsert_result.errors ?r = []"
    by (simp add: upsert_existing_errors len nth wr)
  have r3: "upsert_result.total ?r = 1" "upsert_result.updated ?r = 1" "upsert_result.created ?r = 0"
    by (simp_all add: upsert_existing_counts r1 len)
  have r: "?r = \<lparr>upsert_result.results = [Success 0 ''ok'' Updated],
                upsert_result.errors = [],
                upsert_result.total = 1,
                upsert_result.updated = 1,
                upsert_result.created = 0\<rparr>"
    using r1 r2 r3 by (cases ?r) simp
  have t: "snd (upsert_existing example_store ''c'' example_existing builtin_rows True False) =
           [Request (UpdateItem ''c'' (JNative ''constructor'')
                       [''slug'' \<mapsto> JStr ''constructor''] True)]"
    by (simp add: upsert_existing_trace len nth wr builtin_request)
  show ?thesis
    unfolding upsertItems_fetched[OF example_fetch] r t by simp
qed

text \<open>
  Claim C8 at two rows of which the first one's remote call fails: the two create
  requests follow each other with no wait in between.
\<close>

theorem upsertItems_no_delay_after_failure:
  "upsertItems failing_store ''c'' two_rows True False =
     Some (Inr \<lparr>upsert_result.results = [Success 1 ''ok'' Created],
                upsert_result.errors = [Failure 0 ''Validation Error'' [''title'' \<mapsto> JStr ''P'']],
                upsert_result.total = 2,
                upsert_result.updated = 0,
                upsert_result.created = 1\<rparr>,
           [Request (GetItems ''c'' (Some 100) None),
            Request (CreateItem ''c'' [''title'' \<mapsto> JStr ''P''] False),
            Request (CreateItem ''c'' [''title'' \<mapsto> JStr ''Q''] False)])"
proof -
  let ?r = "fst (upsert_existing failing_store ''c'' [] two_rows True False)"
  have len: "length two_rows = 2" by (simp add: two_rows_def)
  have nth: "two_rows ! 0 = [''title'' \<mapsto> JStr ''P'']" "two_rows ! Suc 0 = [''title'' \<mapsto> JStr ''Q'']"
    by (simp_all add: two_rows_def)
  have wr: "\<And>req. write_response failing_store 0 req = Inl ''Validation Error''"
           "\<And>req. write_response failing_store (Suc 0) req = Inr ''ok''"
    by (simp_all add: failing_store_def)
  have act: "\<And>row. upsert_action (fst (build_lookups [])) (snd (build_lookups [])) [''title'' \<mapsto> JStr ''Q''] = Created"
    by (simp add: upsert_action_def build_lookups_def existingId_of_def get_prop_def
          rest_without_id_def proto_names_def)
  have r1: "upsert_result.results ?r = [Success 1 ''ok'' Created]"
    by (simp add: upsert_existing_results len upt2 nth wr act)
  have r2: "upsert_result.errors ?r = [Failure 0 ''Validation Error'' [''title'' \<mapsto> JStr ''P'']]"
    by (simp add: upsert_existing_errors len upt2 nth wr)
  have r3: "upsert_result.total ?r = 2" "upsert_result.updated ?r = 0" "upsert_result.created ?r = 1"
    by (simp_all add: upsert_existing_counts r1 len)
  have r: "?r = \<lparr>upsert_result.results = [Success 1 ''ok'' Created],
                upsert_result.errors = [Failure 0 ''Validation Error'' [''title'' \<mapsto> JStr ''P'']],
                upsert_result.total = 2,
                upsert_result.updated = 0,
                upsert_result.created = 1\<rparr>"
    using r1 r2 r3 by (cases ?r) simp
  have t: "snd (upsert_existing failing_store ''c'' [] two_rows True False) =
           [Request (CreateItem ''c'' [''title'' \<mapsto> JStr ''P''] False),
            Request (CreateItem ''c'' [''title'' \<mapsto> JStr ''Q''] False)]"
    by (simp add: upsert_existing_trace len upt2 nth wr two_rows_requests)
  show ?thesis
    unfolding upsertItems_fetched[OF failing_fetch] r t by simp
qed

lemma name_mapped_transformed:
  "transformData (name_mapped_importer True) [[''id'' \<mapsto> JStr ''a1'', ''name'' \<mapsto> JStr ''A'']]
     = Inr [[''id'' \<mapsto> JStr ''a1'', ''name'' \<mapsto> JStr ''A'']]"
  "transformData (name_mapped_importer False) [[''id'' \<mapsto> JStr ''a1'', ''name'' \<mapsto> JStr ''A'']]
     = Inr [[''name'' \<mapsto> JStr ''A'']]"
  by (simp_all add: transformData_def transform_row_def name_mapped_importer_def get_prop_def
        assign_def)

theorem dry_run_preview_witness:
  "selectedCollection (name_mapped_importer True) = Some ''c'' \<and>
   parsedData (name_mapped_importer True)
     = Some [[''id'' \<mapsto> JStr ''a1'', ''name'' \<mapsto> JStr ''A'']] \<and>
   [[''id'' \<mapsto> JStr ''a1'', ''name'' \<mapsto> JStr ''A'']] \<noteq> [] \<and>
   isDryRun (name_mapped_importer True) \<and>
   transformData (name_mapped_importer True) [[''id'' \<mapsto> JStr ''a1'', ''name'' \<mapsto> JStr ''A'']]
     = Inr [[''id'' \<mapsto> JStr ''a1'', ''name'' \<mapsto> JStr ''A'']] \<and>
   (\<exists>r. (\<forall>env :: string remote.
            runImport env (name_mapped_importer True) None = Some (DryRun r, [])) \<and>
        itemsWithId r = 1 \<and> itemsWithSlug r = 0 \<and> itemsNew r = 0 \<and>
        dry_run_results.total r = 1 \<and>
        dry_run_results.preview r = [[''id'' \<mapsto> JStr ''a1'', ''name'' \<mapsto> JStr ''A'']])"
proof -
  let ?imp = "name_mapped_importer True"
  let ?rows = "[[''id'' \<mapsto> JStr ''a1'', ''name'' \<mapsto> JStr ''A'']]"
  have a: "selectedCollection ?imp = Some ''c''"
    and b: "parsedData ?imp = Some ?rows"
    and c: "?rows \<noteq> []"
    and d: "(case (None :: bool option) of Some b \<Rightarrow> b | None \<Rightarrow> isDryRun ?imp)"
    by (simp_all add: name_mapped_importer_def)
  have cl: "classify [''id'' \<mapsto> JStr ''a1'', ''name'' \<mapsto> JStr ''A''] = HasId"
    by (simp add: classify_def get_prop_def)
  from dry_run_preview[OF a b c d, where ?'r = string] obtain r where
    r: "\<forall>env :: string remote. runImport env ?imp None = Some (DryRun r, [])"
       "itemsWithId r = length (filter (\<lambda>d. classify d = HasId) ?rows)"
       "itemsWithSlug r = length (filter (\<lambda>d. classify d = HasSlugOnly) ?rows)"
       "itemsNew r = int (length (filter (\<lambda>d. classify d = Neither) ?rows))"
       "dry_run_results.total r = length ?rows"
       "dry_run_results.preview r = take 5 ?rows"
    unfolding name_mapped_transformed(1) by auto
  have "itemsWithId r = 1" "itemsWithSlug r = 0" "itemsNew r = 0" "dry_run_results.total r = 1"
       "dry_run_results.preview r = ?rows"
    using r(2-6) by (simp_all add: cl)
  with r(1) a b c d name_mapped_transformed(1) show ?thesis by auto
qed


end
